theory Spec2Isabelle
  imports Complex_Main "HOL-Library.List_Lexorder" "HOL-Library.Char_ord"
begin

section \<open>Errors\<close>

text \<open>
  The program (app.py) defines no exception class of its own. Every failure is a Python
  exception raised by the interpreter or by a library call and propagated unchanged.
  The model names the call that raised a library error.
\<close>

datatype origin = Tfidf | Svd | NearestCentroid_fit | NearestCentroid_predict
  | Confusion_matrix | Cdist | Argmin

datatype error = OSError | IndexError | ValueError origin

section \<open>Python string operations used by the loader\<close>

text \<open>
  Strings are lists of characters. The separator and the extension are ASCII, so the
  byte-level view of a UTF-8 file name splits at the same places as Python's code points.
\<close>

definition endswith :: "string \<Rightarrow> string \<Rightarrow> bool" where
  "endswith s suf = (length suf \<le> length s \<and> drop (length s - length suf) s = suf)"

text \<open>\<^verbatim>\<open>s.split(sep)\<close> for a one-character separator: the list of the pieces between
  separators; never empty.\<close>

fun split_py :: "char \<Rightarrow> string \<Rightarrow> string list" where
  "split_py sep [] = [[]]"
| "split_py sep (c # cs) =
     (if c = sep then [] # split_py sep cs
      else (c # hd (split_py sep cs)) # tl (split_py sep cs))"

text \<open>\<^verbatim>\<open>s[:-k]\<close>: all but the last k characters (empty when s is shorter).\<close>

definition slice_to_neg :: "nat \<Rightarrow> string \<Rightarrow> string" where
  "slice_to_neg k s = take (length s - k) s"

section \<open>Corpus loader (load_and_train_model, lines 36-51)\<close>

text \<open>
  \<^verbatim>\<open>os.listdir\<close> yields the entries of the working directory in the order of the
  listing. An entry is its name together with what \<^verbatim>\<open>open(...).read()\<close> gives: the text,
  or the exception raised (a directory, a file that does not decode).
\<close>

type_synonym listing = "(string \<times> (error + string)) list"

text \<open>Lines 45-48.\<close>

definition author_of :: "string \<Rightarrow> string" where
  "author_of filename =
     (if CHR ''_'' \<in> set filename then hd (split_py (CHR ''_'') filename)
      else ''Desconocido'')"

text \<open>The loop of lines 39-51, with the three lists it appends to.\<close>

fun load_loop :: "listing \<Rightarrow> string list \<times> string list \<times> string list
    \<Rightarrow> error + (string list \<times> string list \<times> string list)" where
  "load_loop [] acc = Inr acc"
| "load_loop ((filename, contents) # rest) (texts, labels, filenames) =
     (if endswith filename ''.txt'' then
        (case contents of
           Inl e \<Rightarrow> Inl e
         | Inr t \<Rightarrow> load_loop rest
             (texts @ [t], labels @ [author_of filename],
              filenames @ [slice_to_neg 4 filename]))
      else load_loop rest (texts, labels, filenames))"

definition load_corpus :: "listing \<Rightarrow> error + (string list \<times> string list \<times> string list)" where
  "load_corpus dir = load_loop dir ([], [], [])"

subsection \<open>The loader as the specification words it\<close>

text \<open>
  The Document of the data model, and the loader's contract in the specification's words:
  label = the substring before the first separator, or the sentinel when the separator is
  absent; display name = the file name without its extension.
\<close>

record document =
  raw_text :: string
  author_label :: string
  display_name :: string

text \<open>The name ends with the extension.\<close>

definition recognized :: "string \<Rightarrow> bool" where
  "recognized filename = (take 4 (rev filename) = rev ''.txt'')"

definition label_spec :: "string \<Rightarrow> string" where
  "label_spec filename =
     (if CHR ''_'' \<in> set filename then takeWhile (\<lambda>c. c \<noteq> CHR ''_'') filename
      else ''Desconocido'')"

text \<open>The name without the four characters of its extension.\<close>

definition stem_spec :: "string \<Rightarrow> string" where
  "stem_spec filename = rev (drop 4 (rev filename))"

text \<open>The three aligned lists of the source, read as Documents.\<close>

definition documents :: "string list \<times> string list \<times> string list \<Rightarrow> document list" where
  "documents r = (case r of (texts, labels, filenames) \<Rightarrow>
     map (\<lambda>(t, l, f). \<lparr>raw_text = t, author_label = l, display_name = f\<rparr>)
       (zip texts (zip labels filenames)))"

text \<open>A Document is the Document of a directory entry.\<close>

definition is_document_of :: "document \<Rightarrow> string \<times> (error + string) \<Rightarrow> bool" where
  "is_document_of d entry = (case entry of (filename, contents) \<Rightarrow>
     contents = Inr (raw_text d) \<and> author_label d = label_spec filename \<and>
     display_name d = stem_spec filename)"

section \<open>Projection parameters (lines 110-127)\<close>

text \<open>Python integers are unbounded; \<^verbatim>\<open>//\<close> is floor division, as \<open>div\<close> on \<open>int\<close>.\<close>

definition perplexity :: "int \<Rightarrow> int" where
  "perplexity n_samples = min 30 (max 2 (n_samples div 3))"

definition n_neighbors :: "int \<Rightarrow> int" where
  "n_neighbors n_samples = min 15 (max 2 (n_samples div 3))"

text \<open>The rule in the specification's words, with the library default as a parameter.\<close>

definition locality_spec :: "int \<Rightarrow> int \<Rightarrow> int" where
  "locality_spec library_default n = min library_default (max 2 (n div 3))"

section \<open>Library calls\<close>

text \<open>
  The program is a composition of calls into scikit-learn, SciPy and NumPy. The vectorizer
  and the factorization are numerical procedures whose results the program only passes
  on: they are parameters of the model, each a function from its configuration and input
  to a matrix or the exception it raises. A matrix is the list of its rows.
\<close>

record tfidf_vectorizer =
  analyzer :: string
  ngram_range :: "int \<times> int"

record truncated_svd =
  n_components :: int
  random_state :: int

record sklearn =
  tfidf_fit_transform :: "tfidf_vectorizer \<Rightarrow> string list \<Rightarrow> error + real list list"
  svd_fit_transform :: "truncated_svd \<Rightarrow> real list list \<Rightarrow> error + real list list"

subsection \<open>Nearest-centroid classifier\<close>

text \<open>The fitted attributes \<^verbatim>\<open>classes_\<close> and \<^verbatim>\<open>centroids_\<close> of the classifier.\<close>

record nearest_centroid =
  nc_classes :: "string list"
  nc_centroids :: "real list list"

definition n_features :: "real list list \<Rightarrow> nat" where
  "n_features X = (case X of [] \<Rightarrow> 0 | row # rest \<Rightarrow> length row)"

definition euclidean :: "real list \<Rightarrow> real list \<Rightarrow> real" where
  "euclidean u v = sqrt (\<Sum>(a, b)\<leftarrow>zip u v. (a - b)\<^sup>2)"

text \<open>Modelled from the spec: \<^verbatim>\<open>numpy.argmin\<close> is a library function outside the
  repository. Section 4.6 asks for "the argmin centroid"; of several minimal entries the
  first is returned, and an empty sequence is rejected.\<close>

definition np_argmin :: "real list \<Rightarrow> error + nat" where
  "np_argmin xs =
     (if xs = [] then Inl (ValueError Argmin)
      else Inr (length (takeWhile (\<lambda>x. x \<noteq> Min (set xs)) xs)))"

text \<open>Modelled from the spec: \<^verbatim>\<open>scipy.spatial.distance.cdist\<close> is a library function outside
  the repository. Section 4.6: "compute Euclidean distance from every document's dense
  vector to every class centroid", in exact arithmetic. Rows of different widths are
  rejected.\<close>

definition cdist :: "real list list \<Rightarrow> real list list \<Rightarrow> error + real list list" where
  "cdist XA XB =
     (if \<exists>row \<in> set XA \<union> set XB. length row \<noteq> n_features XA then Inl (ValueError Cdist)
      else Inr (map (\<lambda>x. map (euclidean x) XB) XA))"

text \<open>The mean of a non-empty list of rows of width d.\<close>

definition centroid :: "nat \<Rightarrow> real list list \<Rightarrow> real list" where
  "centroid d rows = map (\<lambda>j. (\<Sum>row\<leftarrow>rows. row ! j) / real (length rows)) [0..<d]"

text \<open>Modelled from the spec: \<^verbatim>\<open>sklearn.neighbors.NearestCentroid\<close> is a library class
  outside the repository. Section 4.3: "fit computes one centroid per distinct label as the
  mean of that label's rows"; the ordered label vocabulary is the sorted list of the distinct
  labels. Section 7: fitting is undefined for fewer than two distinct labels, which the
  library reports as an error, as it does for a label list that does not match the rows.\<close>

definition fit :: "real list list \<Rightarrow> string list \<Rightarrow> error + nearest_centroid" where
  "fit X y =
     (if length X \<noteq> length y \<or> (\<exists>row \<in> set X. length row \<noteq> n_features X)
      then Inl (ValueError NearestCentroid_fit)
      else if length (sort (remdups y)) < 2 then Inl (ValueError NearestCentroid_fit)
      else Inr \<lparr>nc_classes = sort (remdups y),
                nc_centroids = map (\<lambda>c. centroid (n_features X)
                                   (map fst (filter (\<lambda>(row, l). l = c) (zip X y))))
                               (sort (remdups y))\<rparr>)"

text \<open>Modelled from the spec: section 4.3: "predict assigns each input row the label of its
  nearest centroid under Euclidean distance, breaking ties by implementation-defined
  deterministic centroid order"; the order is that of the vocabulary, the first of several
  nearest centroids winning. Rows of another width than the centroids are rejected.\<close>

fun predict_rows :: "nearest_centroid \<Rightarrow> real list list \<Rightarrow> error + string list" where
  "predict_rows clf [] = Inr []"
| "predict_rows clf (x # X) =
     (case np_argmin (map (euclidean x) (nc_centroids clf)) of
        Inl e \<Rightarrow> Inl e
      | Inr k \<Rightarrow>
          if k < length (nc_classes clf) then
            (case predict_rows clf X of
               Inl e \<Rightarrow> Inl e
             | Inr ys \<Rightarrow> Inr (nc_classes clf ! k # ys))
          else Inl IndexError)"

definition predict :: "nearest_centroid \<Rightarrow> real list list \<Rightarrow> error + string list" where
  "predict clf X =
     (if \<exists>row \<in> set X. length row \<noteq> n_features (nc_centroids clf)
      then Inl (ValueError NearestCentroid_predict)
      else predict_rows clf X)"

text \<open>Modelled from the spec: \<^verbatim>\<open>sklearn.metrics.confusion_matrix\<close> is a library function
  outside the repository. Glossary: "a true-label x predicted-label count grid"; section
  4.4: "both axes ordered identically by the vocabulary". Cell (i, j) counts the documents
  with true label classes[i] and predicted label classes[j]. Label lists of different
  lengths are rejected.\<close>

definition confusion_matrix :: "string list \<Rightarrow> string list \<Rightarrow> string list \<Rightarrow> error + nat list list" where
  "confusion_matrix y_true y_pred labels =
     (if length y_true \<noteq> length y_pred then Inl (ValueError Confusion_matrix)
      else Inr (map (\<lambda>a. map (\<lambda>b. length (filter (\<lambda>(t, p). t = a \<and> p = b) (zip y_true y_pred)))
                            labels) labels))"

section \<open>Training (load_and_train_model, lines 53-61)\<close>

definition load_and_train_model :: "sklearn \<Rightarrow> int \<Rightarrow> int \<Rightarrow> listing \<Rightarrow>
    error + (nearest_centroid \<times> tfidf_vectorizer \<times> truncated_svd \<times> string list \<times> string list
             \<times> string list \<times> real list list)" where
  "load_and_train_model lib ngram_min ngram_max dir =
     (case load_corpus dir of
        Inl e \<Rightarrow> Inl e
      | Inr (texts, labels, filenames) \<Rightarrow>
          let vectorizer = \<lparr>analyzer = ''char'', ngram_range = (ngram_min, ngram_max)\<rparr> in
          (case tfidf_fit_transform lib vectorizer texts of
             Inl e \<Rightarrow> Inl e
           | Inr X \<Rightarrow>
               let svd = \<lparr>n_components = 50, random_state = 42\<rparr> in
               (case svd_fit_transform lib svd X of
                  Inl e \<Rightarrow> Inl e
                | Inr X_reduced \<Rightarrow>
                    (case fit X_reduced labels of
                       Inl e \<Rightarrow> Inl e
                     | Inr clf \<Rightarrow>
                         Inr (clf, vectorizer, svd, texts, labels, filenames, X_reduced)))))"

section \<open>Evaluator (identify_confusion_errors, lines 64-77)\<close>

record confusion_record =
  true_label :: string
  predicted_label :: string
  misclassified_files :: "string list"

text \<open>The comprehension of lines 70-71 over \<^verbatim>\<open>enumerate(labels)\<close>; an index beyond a list
  raises.\<close>

fun misclassified :: "(nat \<times> string) list \<Rightarrow> string list \<Rightarrow> string list \<Rightarrow> string \<Rightarrow> string
    \<Rightarrow> error + string list" where
  "misclassified [] y_pred filenames ci cj = Inr []"
| "misclassified ((idx, label) # rest) y_pred filenames ci cj =
     (if label = ci then
        (if idx < length y_pred then
           (if y_pred ! idx = cj then
              (if idx < length filenames then
                 (case misclassified rest y_pred filenames ci cj of
                    Inl e \<Rightarrow> Inl e
                  | Inr files \<Rightarrow> Inr (filenames ! idx # files))
               else Inl IndexError)
            else misclassified rest y_pred filenames ci cj)
         else Inl IndexError)
      else misclassified rest y_pred filenames ci cj)"

text \<open>The two nested loops of lines 67-76 over the cells (i, j), row by row.\<close>

fun errors_loop :: "(nat \<times> nat) list \<Rightarrow> nat list list \<Rightarrow> string list \<Rightarrow> string list \<Rightarrow> string list
    \<Rightarrow> string list \<Rightarrow> confusion_record list \<Rightarrow> error + confusion_record list" where
  "errors_loop [] cm labels y_pred filenames classes errors = Inr errors"
| "errors_loop ((i, j) # rest) cm labels y_pred filenames classes errors =
     (if i \<noteq> j \<and> cm ! i ! j > 0 then
        (case misclassified (enumerate 0 labels) y_pred filenames (classes ! i) (classes ! j) of
           Inl e \<Rightarrow> Inl e
         | Inr files \<Rightarrow>
             errors_loop rest cm labels y_pred filenames classes
               (errors @ [\<lparr>true_label = classes ! i, predicted_label = classes ! j,
                           misclassified_files = files\<rparr>]))
      else errors_loop rest cm labels y_pred filenames classes errors)"

definition cells :: "nat \<Rightarrow> (nat \<times> nat) list" where
  "cells n = List.product [0..<n] [0..<n]"

definition identify_confusion_errors :: "string list \<Rightarrow> string list \<Rightarrow> string list
    \<Rightarrow> nearest_centroid \<Rightarrow> error + confusion_record list" where
  "identify_confusion_errors labels y_pred filenames clf =
     (case confusion_matrix labels y_pred (nc_classes clf) of
        Inl e \<Rightarrow> Inl e
      | Inr cm \<Rightarrow>
          errors_loop (cells (length (nc_classes clf))) cm labels y_pred filenames (nc_classes clf) [])"

section \<open>Distance reporter (lines 140-151)\<close>

text \<open>\<^verbatim>\<open>round(x, 5)\<close> in exact arithmetic: to the nearest multiple of 10^-5, a tie to the
  even one.\<close>

definition round5 :: "real \<Rightarrow> real" where
  "round5 x =
     (let y = x * 100000; f = \<lfloor>y\<rfloor>; d = y - of_int f in
      of_int (if d < 1 / 2 then f else if 1 / 2 < d then f + 1
              else if even f then f else f + 1) / 100000)"

text \<open>A row of the table. The source's row is a dictionary with the keys Texto, Autor,
  one key Distancia_author for each author, and the key of the nearest author
  ("Mas cercano", written with an accent in the source).\<close>

record distance_row =
  Texto :: string
  Autor :: string
  Distancia :: "string \<rightharpoonup> real"
  Mas_cercano :: string

text \<open>The inner loop of lines 147-148.\<close>

fun distancia_loop :: "(nat \<times> string) list \<Rightarrow> real list \<Rightarrow> (string \<rightharpoonup> real)
    \<Rightarrow> error + (string \<rightharpoonup> real)" where
  "distancia_loop [] drow row = Inr row"
| "distancia_loop ((j, author) # rest) drow row =
     (if j < length drow then distancia_loop rest drow (row(author \<mapsto> round5 (drow ! j)))
      else Inl IndexError)"

text \<open>The loop of lines 145-151 over \<^verbatim>\<open>enumerate(filenames)\<close>.\<close>

fun report_loop :: "(nat \<times> string) list \<Rightarrow> string list \<Rightarrow> string list \<Rightarrow> real list list
    \<Rightarrow> distance_row list \<Rightarrow> error + distance_row list" where
  "report_loop [] labels clf_classes distances acc = Inr acc"
| "report_loop ((i, fname) # rest) labels clf_classes distances acc =
     (if i < length labels \<and> i < length distances then
        (case distancia_loop (enumerate 0 clf_classes) (distances ! i) Map.empty of
           Inl e \<Rightarrow> Inl e
         | Inr cols \<Rightarrow>
             (case np_argmin (distances ! i) of
                Inl e \<Rightarrow> Inl e
              | Inr k \<Rightarrow>
                  if k < length clf_classes then
                    report_loop rest labels clf_classes distances
                      (acc @
                         [\<lparr>Texto = fname, Autor = labels ! i, Distancia = cols,
                           Mas_cercano = clf_classes ! k\<rparr>])
                  else Inl IndexError))
      else Inl IndexError)"

definition distance_matrix :: "real list list \<Rightarrow> nearest_centroid \<Rightarrow> string list \<Rightarrow> string list
    \<Rightarrow> error + distance_row list" where
  "distance_matrix X_reduced clf labels filenames =
     (case cdist X_reduced (nc_centroids clf) of
        Inl e \<Rightarrow> Inl e
      | Inr distances \<Rightarrow>
          report_loop (enumerate 0 filenames) labels (nc_classes clf) distances [])"

section \<open>A stand-in library\<close>

text \<open>
  To run the pipeline on a concrete corpus the two library parameters need values. The
  stand-in vectorizer gives each text two features, its length and its number of letters
  a, and the stand-in factorization returns its input: both accept every input, which the
  library's do not, and serve only to give the parameters a value. The strict
  factorization rejects a rank above the number of columns, which is the parameter check
  of the library's factorization, and otherwise keeps the leading columns.
\<close>

definition sample_tfidf :: "tfidf_vectorizer \<Rightarrow> string list \<Rightarrow> error + real list list" where
  "sample_tfidf v texts = Inr (map (\<lambda>t. [real (length t), real (count_list t (CHR ''a''))]) texts)"

definition sample_svd :: "truncated_svd \<Rightarrow> real list list \<Rightarrow> error + real list list" where
  "sample_svd s X = Inr X"

definition strict_svd :: "truncated_svd \<Rightarrow> real list list \<Rightarrow> error + real list list" where
  "strict_svd s X =
     (if int (n_features X) < n_components s then Inl (ValueError Svd)
      else Inr (map (take (nat (n_components s))) X))"

definition sample_lib :: sklearn where
  "sample_lib = \<lparr>tfidf_fit_transform = sample_tfidf, svd_fit_transform = sample_svd\<rparr>"

definition strict_lib :: sklearn where
  "strict_lib = \<lparr>tfidf_fit_transform = sample_tfidf, svd_fit_transform = strict_svd\<rparr>"

section \<open>A stand-in library with the library's input checks\<close>

text \<open>
  The stand-ins above accept every input. Runs that are to end where the program's runs
  end need the checks the library makes on its input: the vectorizer rejects a range with
  ngram_min > ngram_max and a corpus in which no n-gram of the range occurs, and the
  factorization rejects a rank above the number of columns (\<open>strict_svd\<close>). This
  vectorizer has one column for each character n-gram of the corpus, in sorted order, as
  the library's has; a row holds the counts of the n-grams in its text, where the library
  weights and normalises them. No claim depends on the weights.
\<close>

definition ngrams :: "nat \<Rightarrow> string \<Rightarrow> string list" where
  "ngrams n s = map (\<lambda>i. take n (drop i s)) [0..<Suc (length s) - n]"

definition char_ngrams :: "tfidf_vectorizer \<Rightarrow> string \<Rightarrow> string list" where
  "char_ngrams v s =
     concat (map (\<lambda>n. ngrams n s) [nat (fst (ngram_range v))..<Suc (nat (snd (ngram_range v)))])"

definition vocabulary :: "tfidf_vectorizer \<Rightarrow> string list \<Rightarrow> string list" where
  "vocabulary v texts = sort (remdups (concat (map (char_ngrams v) texts)))"

definition count_vectorizer :: "tfidf_vectorizer \<Rightarrow> string list \<Rightarrow> error + real list list" where
  "count_vectorizer v texts =
     (if snd (ngram_range v) < fst (ngram_range v) then Inl (ValueError Tfidf)
      else if vocabulary v texts = [] then Inl (ValueError Tfidf)
      else Inr (map (\<lambda>t. map (\<lambda>g. real (count_list (char_ngrams v t) g)) (vocabulary v texts))
                  texts))"

definition checked_lib :: sklearn where
  "checked_lib = \<lparr>tfidf_fit_transform = count_vectorizer, svd_fit_transform = strict_svd\<rparr>"

section \<open>Properties of the string operations\<close>

lemma split_py_nonempty: "split_py sep s \<noteq> []"
  by (induction s) auto

lemma hd_split_py: "hd (split_py sep s) = takeWhile (\<lambda>c. c \<noteq> sep) s"
  by (induction s) auto

lemma endswith_iff: "endswith s suf \<longleftrightarrow> (\<exists>stem. s = stem @ suf)"
proof
  assume "endswith s suf"
  then have "s = take (length s - length suf) s @ suf"
    unfolding endswith_def by (metis append_take_drop_id)
  then show "\<exists>stem. s = stem @ suf" ..
next
  assume "\<exists>stem. s = stem @ suf"
  then show "endswith s suf"
    unfolding endswith_def by auto
qed

lemma recognized_iff: "recognized filename \<longleftrightarrow> (\<exists>stem. filename = stem @ ''.txt'')"
proof
  assume "recognized filename"
  then have "rev filename = rev ''.txt'' @ drop 4 (rev filename)"
    unfolding recognized_def by (metis append_take_drop_id)
  then have "rev (rev filename) = rev (rev ''.txt'' @ drop 4 (rev filename))"
    by (rule arg_cong)
  then have "filename = rev (drop 4 (rev filename)) @ ''.txt''"
    by simp
  then show "\<exists>stem. filename = stem @ ''.txt''" ..
next
  assume "\<exists>stem. filename = stem @ ''.txt''"
  then show "recognized filename"
    unfolding recognized_def by auto
qed

lemma recognized_endswith: "recognized filename = endswith filename ''.txt''"
  unfolding recognized_iff endswith_iff ..

lemma stem_spec_append: "stem_spec (stem @ ''.txt'') = stem"
  unfolding stem_spec_def by simp

lemma slice_is_stem:
  assumes "endswith filename ''.txt''"
  shows "slice_to_neg 4 filename = stem_spec filename"
proof -
  from assms obtain stem where f: "filename = stem @ ''.txt''"
    unfolding endswith_iff ..
  have "slice_to_neg 4 filename = stem"
    unfolding slice_to_neg_def f by simp
  then show ?thesis
    unfolding f stem_spec_append .
qed

lemma author_of_spec: "author_of filename = label_spec filename"
  unfolding author_of_def label_spec_def hd_split_py ..

section \<open>Properties of the loader\<close>

lemma load_loop_Inr:
  assumes "load_loop dir (ts, ls, fs) = Inr r"
  shows "map snd (filter (\<lambda>(f, c). endswith f ''.txt'') dir) =
           map (\<lambda>(f, c). Inr (projr c)) (filter (\<lambda>(f, c). endswith f ''.txt'') dir) \<and>
         r = (ts @ map (\<lambda>(f, c). projr c) (filter (\<lambda>(f, c). endswith f ''.txt'') dir),
              ls @ map (\<lambda>(f, c). author_of f) (filter (\<lambda>(f, c). endswith f ''.txt'') dir),
              fs @ map (\<lambda>(f, c). slice_to_neg 4 f) (filter (\<lambda>(f, c). endswith f ''.txt'') dir))"
  using assms
proof (induction dir arbitrary: ts ls fs)
  case Nil
  then show ?case by simp
next
  case (Cons p dir)
  obtain f c where p: "p = (f, c)" by (cases p)
  show ?case
  proof (cases "endswith f ''.txt''")
    case False
    with Cons.prems have "load_loop dir (ts, ls, fs) = Inr r"
      by (simp add: p)
    from Cons.IH [OF this] False show ?thesis
      by (simp add: p)
  next
    case True
    with Cons.prems obtain t where c: "c = Inr t"
      by (cases c) (simp_all add: p)
    with Cons.prems True
    have "load_loop dir (ts @ [t], ls @ [author_of f], fs @ [slice_to_neg 4 f]) = Inr r"
      by (simp add: p)
    from Cons.IH [OF this] True show ?thesis
      by (simp add: p c)
  qed
qed

lemma load_loop_Inl:
  "load_loop dir acc = Inl e \<Longrightarrow> \<exists>f. (f, Inl e) \<in> set dir \<and> endswith f ''.txt''"
proof (induction dir acc rule: load_loop.induct)
  case (1 acc)
  then show ?case by simp
next
  case (2 filename contents rest texts labels filenames)
  then show ?case
    by (cases contents) (auto split: if_splits)
qed

lemma load_corpus_lengths:
  assumes "load_corpus dir = Inr (texts, labels, filenames)"
  shows "length texts = length (filter (\<lambda>(f, c). endswith f ''.txt'') dir)"
    and "length labels = length texts" and "length filenames = length texts"
  using load_loop_Inr [OF assms [unfolded load_corpus_def]] by simp_all


lemma documents_nth:
  assumes "length labels = length texts" and "length filenames = length texts"
    and "i < length texts"
  shows "documents (texts, labels, filenames) ! i =
    \<lparr>raw_text = texts ! i, author_label = labels ! i, display_name = filenames ! i\<rparr>"
  using assms unfolding documents_def by simp

lemma length_documents:
  assumes "length labels = length texts" and "length filenames = length texts"
  shows "length (documents (texts, labels, filenames)) = length texts"
  using assms unfolding documents_def by simp

lemma load_corpus_documents:
  assumes "load_corpus dir = Inr r"
  shows "list_all2 is_document_of (documents r) (filter (\<lambda>(f, c). recognized f) dir)"
proof -
  let ?E = "filter (\<lambda>(f, c). endswith f ''.txt'') dir"
  from load_loop_Inr [OF assms [unfolded load_corpus_def]]
  have ok: "map snd ?E = map (\<lambda>(f, c). Inr (projr c)) ?E"
    and r: "r = (map (\<lambda>(f, c). projr c) ?E, map (\<lambda>(f, c). author_of f) ?E,
                 map (\<lambda>(f, c). slice_to_neg 4 f) ?E)"
    by simp_all
  have E: "filter (\<lambda>(f, c). recognized f) dir = ?E"
    by (simp add: recognized_endswith)
  show ?thesis
    unfolding E list_all2_conv_all_nth
  proof (intro conjI allI impI)
    show len: "length (documents r) = length ?E"
      unfolding r by (simp add: length_documents)
    fix i
    assume "i < length (documents r)"
    with len have i: "i < length ?E" by simp
    obtain f c where fc: "?E ! i = (f, c)" by (cases "?E ! i")
    from i have "?E ! i \<in> set ?E" by (rule nth_mem)
    then have ext: "endswith f ''.txt''" unfolding fc by simp
    from arg_cong [OF ok, of "\<lambda>xs. xs ! i"] i have c: "c = Inr (projr c)"
      by (simp add: fc)
    have d: "documents r ! i =
        \<lparr>raw_text = projr c, author_label = author_of f, display_name = slice_to_neg 4 f\<rparr>"
      unfolding r using i by (simp add: documents_nth fc)
    show "is_document_of (documents r ! i) (?E ! i)"
      unfolding d fc is_document_of_def using c ext
      by (simp add: author_of_spec slice_is_stem)
  qed
qed

text \<open>The entries of one directory have different names, so the display names differ.\<close>

lemma slice_to_neg_inj:
  assumes "endswith f ''.txt''" and "endswith g ''.txt''"
    and "slice_to_neg 4 f = slice_to_neg 4 g"
  shows "f = g"
proof -
  from assms(1) obtain a where f: "f = a @ ''.txt''" unfolding endswith_iff ..
  from assms(2) obtain b where g: "g = b @ ''.txt''" unfolding endswith_iff ..
  from assms(3) show ?thesis
    unfolding f g slice_to_neg_def by simp
qed

lemma load_corpus_distinct:
  assumes "load_corpus dir = Inr (texts, labels, filenames)" and "distinct (map fst dir)"
  shows "distinct filenames"
proof -
  let ?E = "filter (\<lambda>(f, c). endswith f ''.txt'') dir"
  from load_loop_Inr [OF assms(1) [unfolded load_corpus_def]]
  have "filenames = map (\<lambda>(f, c). slice_to_neg 4 f) ?E" by simp
  then have fs: "filenames = map (slice_to_neg 4) (map fst ?E)"
    by (simp add: case_prod_unfold)
  have d: "distinct (map fst ?E)"
    using assms(2) by (rule distinct_map_filter)
  have "inj_on (slice_to_neg 4) (set (map fst ?E))"
    by (rule inj_onI) (auto intro: slice_to_neg_inj)
  with d have "distinct (map (slice_to_neg 4) (map fst ?E))"
    by (subst distinct_map) (rule conjI)
  then show ?thesis
    unfolding fs .
qed

section \<open>Properties of the evaluator\<close>

lemma misclassified_in_range:
  assumes "\<forall>p \<in> set es. fst p < length y_pred \<and> fst p < length filenames"
  shows "misclassified es y_pred filenames ci cj =
    Inr (map (\<lambda>p. filenames ! fst p) (filter (\<lambda>p. snd p = ci \<and> y_pred ! fst p = cj) es))"
  using assms by (induction es) auto

lemma misclassified_enumerate:
  assumes "length y_pred = length labels" and "length filenames = length labels"
  shows "misclassified (enumerate 0 labels) y_pred filenames ci cj =
    Inr (map (\<lambda>p. filenames ! fst p)
       (filter (\<lambda>p. snd p = ci \<and> y_pred ! fst p = cj) (enumerate 0 labels)))"
  by (rule misclassified_in_range) (simp add: in_set_enumerate_eq assms)

lemma errors_loop_collect:
  assumes "\<And>ci cj. misclassified (enumerate 0 labels) y_pred filenames ci cj = Inr (G ci cj)"
  shows "errors_loop cs cm labels y_pred filenames classes acc =
    Inr (acc @ map (\<lambda>(i, j). \<lparr>true_label = classes ! i, predicted_label = classes ! j,
                     misclassified_files = G (classes ! i) (classes ! j)\<rparr>)
           (filter (\<lambda>(i, j). i \<noteq> j \<and> 0 < cm ! i ! j) cs))"
proof (induction cs arbitrary: acc)
  case Nil
  show ?case by simp
next
  case (Cons c cs)
  obtain i j where c: "c = (i, j)" by (cases c)
  show ?case
  proof (cases "i \<noteq> j \<and> 0 < cm ! i ! j")
    case True
    then show ?thesis
      unfolding c by (simp add: assms Cons.IH)
  next
    case False
    then show ?thesis
      unfolding c by (auto simp add: Cons.IH)
  qed
qed

lemma count_zip_enumerate:
  assumes "length y_pred = length labels"
  shows "length (filter (\<lambda>(t, p). t = a \<and> p = b) (zip labels y_pred)) =
         length (filter (\<lambda>p. snd p = a \<and> y_pred ! fst p = b) (enumerate 0 labels))"
proof -
  have "{i. i < length (zip labels y_pred) \<and> (case zip labels y_pred ! i of (t, p) \<Rightarrow> t = a \<and> p = b)} =
        {i. i < length (enumerate 0 labels) \<and>
            snd (enumerate 0 labels ! i) = a \<and> y_pred ! fst (enumerate 0 labels ! i) = b}"
    using assms by (auto simp: nth_enumerate_eq)
  then show ?thesis
    unfolding length_filter_conv_card by simp
qed

lemma confusion_matrix_cell:
  assumes "confusion_matrix labels y_pred classes = Inr cm"
    and "i < length classes" and "j < length classes"
  shows "cm ! i ! j =
    length (filter (\<lambda>p. snd p = classes ! i \<and> y_pred ! fst p = classes ! j) (enumerate 0 labels))"
proof -
  from assms(1) have len: "length y_pred = length labels"
    unfolding confusion_matrix_def by (simp split: if_splits)
  from assms(1) have "cm = map (\<lambda>a. map (\<lambda>b. length (filter (\<lambda>(t, p). t = a \<and> p = b) (zip labels y_pred)))
                            classes) classes"
    unfolding confusion_matrix_def by (simp split: if_splits)
  with assms(2,3) show ?thesis
    by (simp add: count_zip_enumerate [OF len])
qed

lemma files_disjoint:
  assumes "distinct filenames" and "length filenames = length labels"
    and "(a, b) \<noteq> (a', b')"
  shows "set (map (\<lambda>p. filenames ! fst p)
            (filter (\<lambda>p. snd p = a \<and> y_pred ! fst p = b) (enumerate 0 labels))) \<inter>
         set (map (\<lambda>p. filenames ! fst p)
            (filter (\<lambda>p. snd p = a' \<and> y_pred ! fst p = b') (enumerate 0 labels))) = {}"
proof -
  have "False" if x1: "x \<in> set (map (\<lambda>p. filenames ! fst p)
            (filter (\<lambda>p. snd p = a \<and> y_pred ! fst p = b) (enumerate 0 labels)))"
    and x2: "x \<in> set (map (\<lambda>p. filenames ! fst p)
            (filter (\<lambda>p. snd p = a' \<and> y_pred ! fst p = b') (enumerate 0 labels)))" for x
  proof -
    from x1 obtain p where p: "p \<in> set (enumerate 0 labels)" "snd p = a" "y_pred ! fst p = b"
      "x = filenames ! fst p"
      by auto
    from x2 obtain q where q: "q \<in> set (enumerate 0 labels)" "snd q = a'" "y_pred ! fst q = b'"
      "x = filenames ! fst q"
      by auto
    from p(1) q(1) have r: "fst p < length labels" "fst q < length labels"
      "labels ! fst p = snd p" "labels ! fst q = snd q"
      by (simp_all add: in_set_enumerate_eq)
    from p(4) q(4) have "filenames ! fst p = filenames ! fst q" by simp
    with r(1,2) assms(1,2) have "fst p = fst q"
      by (simp add: nth_eq_iff_index_eq)
    with p q r assms(3) show False by simp
  qed
  then show ?thesis by blast
qed

lemma cells_range: "(i, j) \<in> set (cells n) \<longleftrightarrow> i < n \<and> j < n"
  unfolding cells_def by auto

lemma distinct_cells: "distinct (cells n)"
  unfolding cells_def by (simp add: distinct_product)

lemma sum_filter_cells:
  fixes g :: "nat \<Rightarrow> nat \<Rightarrow> nat"
  shows "(\<Sum>(i, j)\<leftarrow>filter (\<lambda>(i, j). i \<noteq> j \<and> 0 < g i j) cs. g i j) =
         (\<Sum>(i, j)\<leftarrow>cs. if i \<noteq> j then g i j else 0)"
  by (induction cs) (auto split: if_splits)


section \<open>Properties of the classifier and the reporter\<close>

lemma np_argmin_Inr:
  assumes "np_argmin xs = Inr k"
  shows "k < length xs" and "xs ! k = Min (set xs)" and "\<forall>j < length xs. xs ! k \<le> xs ! j"
    and "\<forall>j < k. xs ! j \<noteq> xs ! k"
proof -
  let ?m = "Min (set xs)"
  let ?P = "\<lambda>x. x \<noteq> ?m"
  from assms have ne: "xs \<noteq> []" and k: "k = length (takeWhile ?P xs)"
    unfolding np_argmin_def by (simp_all split: if_splits)
  from ne have "?m \<in> set xs" by (simp add: Min_in)
  then have ex: "\<exists>x \<in> set xs. \<not> ?P x" by blast
  have lt: "length (takeWhile ?P xs) < length xs"
  proof (rule ccontr)
    assume "\<not> length (takeWhile ?P xs) < length xs"
    with length_takeWhile_le [of ?P xs] have "length (takeWhile ?P xs) = length xs"
      by simp
    with takeWhile_eq_take [of ?P xs] have "takeWhile ?P xs = xs"
      by simp
    then have "\<forall>x \<in> set xs. ?P x"
      by simp
    with ex show False by blast
  qed
  then show "k < length xs" unfolding k .
  from nth_length_takeWhile [OF lt] show m: "xs ! k = ?m" unfolding k by simp
  show "\<forall>j < length xs. xs ! k \<le> xs ! j"
    unfolding m by simp
  show "\<forall>j < k. xs ! j \<noteq> xs ! k"
  proof (intro allI impI)
    fix j assume "j < k"
    then have j: "j < length (takeWhile ?P xs)" unfolding k .
    then have "takeWhile ?P xs ! j \<in> set (takeWhile ?P xs)" by (rule nth_mem)
    then have "?P (takeWhile ?P xs ! j)" by (rule set_takeWhileD [THEN conjunct2])
    with takeWhile_nth [OF j] show "xs ! j \<noteq> xs ! k" unfolding m by simp
  qed
qed

lemma np_argmin_first_zero:
  assumes "k < length xs" and "xs ! k = 0" and "\<forall>j < length xs. 0 \<le> xs ! j"
    and "\<forall>j < k. xs ! j \<noteq> 0"
  shows "np_argmin xs = Inr k"
proof -
  from assms(1) have ne: "xs \<noteq> []" by auto
  have "0 \<in> set xs" using assms(1,2) by (metis nth_mem)
  moreover have "\<forall>x \<in> set xs. 0 \<le> x" using assms(3) by (auto simp: in_set_conv_nth)
  ultimately have m: "Min (set xs) = 0"
    by (intro Min_eqI) simp_all
  have "takeWhile (\<lambda>x. x \<noteq> 0) xs = take k xs"
    by (rule takeWhile_eq_take_P_nth) (use assms in simp_all)
  with assms(1) have "length (takeWhile (\<lambda>x. x \<noteq> 0) xs) = k" by simp
  with ne show ?thesis
    unfolding np_argmin_def m by simp
qed

lemma euclidean_nonneg: "0 \<le> euclidean u v"
  unfolding euclidean_def by (intro real_sqrt_ge_zero sum_list_nonneg) auto

lemma euclidean_eq_0_iff:
  assumes "length u = length v"
  shows "euclidean u v = 0 \<longleftrightarrow> u = v"
proof -
  have "euclidean u v = 0 \<longleftrightarrow> (\<Sum>(a, b)\<leftarrow>zip u v. (a - b)\<^sup>2) = 0"
    unfolding euclidean_def by simp
  also have "\<dots> \<longleftrightarrow> (\<forall>x \<in> set (map (\<lambda>(a, b). (a - b)\<^sup>2) (zip u v)). x = 0)"
    by (rule sum_list_nonneg_eq_0_iff) auto
  also have "\<dots> \<longleftrightarrow> (\<forall>(a, b) \<in> set (zip u v). a = b)"
    by auto
  also have "\<dots> \<longleftrightarrow> u = v"
    using assms by (simp add: list_eq_iff_zip_eq)
  finally show ?thesis .
qed

lemma predict_rows_Inr:
  assumes "predict_rows clf X = Inr ys"
  shows "length ys = length X \<and>
    (\<forall>i < length X. \<exists>k. np_argmin (map (euclidean (X ! i)) (nc_centroids clf)) = Inr k \<and>
        k < length (nc_classes clf) \<and> ys ! i = nc_classes clf ! k)"
  using assms
proof (induction X arbitrary: ys)
  case Nil
  then show ?case by simp
next
  case (Cons x X)
  from Cons.prems obtain k ys' where k: "np_argmin (map (euclidean x) (nc_centroids clf)) = Inr k"
      "k < length (nc_classes clf)" and rest: "predict_rows clf X = Inr ys'"
      and ys: "ys = nc_classes clf ! k # ys'"
    by (auto split: sum.splits if_splits)
  from Cons.IH [OF rest] have len: "length ys' = length X"
    and nth: "\<And>i. i < length X \<Longrightarrow> \<exists>k. np_argmin (map (euclidean (X ! i)) (nc_centroids clf)) = Inr k \<and>
        k < length (nc_classes clf) \<and> ys' ! i = nc_classes clf ! k"
    by simp_all
  show ?case
  proof (intro conjI allI impI)
    show "length ys = length (x # X)" by (simp add: ys len)
    fix i assume i: "i < length (x # X)"
    show "\<exists>k. np_argmin (map (euclidean ((x # X) ! i)) (nc_centroids clf)) = Inr k \<and>
        k < length (nc_classes clf) \<and> ys ! i = nc_classes clf ! k"
    proof (cases i)
      case 0
      with k show ?thesis by (simp add: ys)
    next
      case (Suc i')
      with i nth [of i'] show ?thesis by (simp add: ys)
    qed
  qed
qed

lemma predict_rows_nth:
  assumes "length ks = length X"
    and "\<forall>i < length X. np_argmin (map (euclidean (X ! i)) (nc_centroids clf)) = Inr (ks ! i) \<and>
           ks ! i < length (nc_classes clf)"
  shows "predict_rows clf X = Inr (map (\<lambda>k. nc_classes clf ! k) ks)"
  using assms
proof (induction X arbitrary: ks)
  case Nil
  then show ?case by simp
next
  case (Cons x X)
  from Cons.prems(1) obtain k ks' where ks: "ks = k # ks'" and len: "length ks' = length X"
    by (cases ks) auto
  from Cons.prems(2) [rule_format, of 0]
  have k: "np_argmin (map (euclidean x) (nc_centroids clf)) = Inr k" "k < length (nc_classes clf)"
    by (simp_all add: ks)
  have "\<forall>i < length X. np_argmin (map (euclidean (X ! i)) (nc_centroids clf)) = Inr (ks' ! i) \<and>
           ks' ! i < length (nc_classes clf)"
  proof (intro allI impI)
    fix i assume "i < length X"
    with Cons.prems(2) [rule_format, of "Suc i"]
    show "np_argmin (map (euclidean (X ! i)) (nc_centroids clf)) = Inr (ks' ! i) \<and>
           ks' ! i < length (nc_classes clf)"
      by (simp add: ks)
  qed
  from Cons.IH [OF len this] k show ?case
    by (simp add: ks)
qed

lemma report_loop_Inr:
  assumes "report_loop (enumerate n fs) labels cls D acc = Inr table"
  shows "length table = length acc + length fs \<and>
    (\<forall>i < length acc. table ! i = acc ! i) \<and>
    (\<forall>i < length fs. n + i < length labels \<and> n + i < length D \<and>
       Texto (table ! (length acc + i)) = fs ! i \<and>
       Autor (table ! (length acc + i)) = labels ! (n + i) \<and>
       (\<exists>k. np_argmin (D ! (n + i)) = Inr k \<and> k < length cls \<and>
            Mas_cercano (table ! (length acc + i)) = cls ! k))"
  using assms
proof (induction fs arbitrary: n acc)
  case Nil
  then show ?case by simp
next
  case (Cons f fs)
  from Cons.prems obtain cols k where n: "n < length labels" "n < length D"
    and k: "np_argmin (D ! n) = Inr k" "k < length cls"
    and rest: "report_loop (enumerate (Suc n) fs) labels cls D
        (acc @ [\<lparr>Texto = f, Autor = labels ! n, Distancia = cols, Mas_cercano = cls ! k\<rparr>]) = Inr table"
    by (auto split: sum.splits if_splits)
  let ?row = "\<lparr>Texto = f, Autor = labels ! n, Distancia = cols, Mas_cercano = cls ! k\<rparr>"
  from Cons.IH [OF rest] have len: "length table = length acc + 1 + length fs"
    and pre: "\<And>i. i < length acc + 1 \<Longrightarrow> table ! i = (acc @ [?row]) ! i"
    and nth: "\<And>i. i < length fs \<Longrightarrow> Suc n + i < length labels \<and> Suc n + i < length D \<and>
       Texto (table ! (length acc + 1 + i)) = fs ! i \<and>
       Autor (table ! (length acc + 1 + i)) = labels ! (Suc n + i) \<and>
       (\<exists>k. np_argmin (D ! (Suc n + i)) = Inr k \<and> k < length cls \<and>
            Mas_cercano (table ! (length acc + 1 + i)) = cls ! k)"
    by simp_all
  have a: "length table = length acc + length (f # fs)" using len by simp
  have b: "table ! i = acc ! i" if "i < length acc" for i
    using pre [of i] that by (simp add: nth_append)
  have c: "n + i < length labels \<and> n + i < length D \<and>
       Texto (table ! (length acc + i)) = (f # fs) ! i \<and>
       Autor (table ! (length acc + i)) = labels ! (n + i) \<and>
       (\<exists>k. np_argmin (D ! (n + i)) = Inr k \<and> k < length cls \<and>
            Mas_cercano (table ! (length acc + i)) = cls ! k)" if i: "i < length (f # fs)" for i
  proof (cases i)
    case 0
    from pre [of "length acc"] have "table ! length acc = ?row" by simp
    with n k 0 show ?thesis by simp
  next
    case (Suc i')
    with i nth [of i'] show ?thesis by simp
  qed
  from a b c show ?case by blast
qed

lemma cdist_Inr:
  assumes "cdist XA XB = Inr D"
  shows "length D = length XA" and "\<forall>i < length XA. D ! i = map (euclidean (XA ! i)) XB"
  using assms unfolding cdist_def by (auto split: if_splits)

lemma distance_matrix_Inr:
  assumes "distance_matrix X clf labels filenames = Inr table"
  shows "length table = length filenames \<and>
    (\<forall>i < length filenames. i < length labels \<and> i < length X \<and>
       Texto (table ! i) = filenames ! i \<and> Autor (table ! i) = labels ! i \<and>
       (\<exists>k. np_argmin (map (euclidean (X ! i)) (nc_centroids clf)) = Inr k \<and>
            k < length (nc_classes clf) \<and> Mas_cercano (table ! i) = nc_classes clf ! k))"
proof -
  from assms obtain D where D: "cdist X (nc_centroids clf) = Inr D"
    and loop: "report_loop (enumerate 0 filenames) labels (nc_classes clf) D [] = Inr table"
    unfolding distance_matrix_def by (auto split: sum.splits)
  note r = report_loop_Inr [OF loop]
  note c = cdist_Inr [OF D]
  from r have a: "length table = length filenames" by simp
  have b: "i < length labels \<and> i < length X \<and>
       Texto (table ! i) = filenames ! i \<and> Autor (table ! i) = labels ! i \<and>
       (\<exists>k. np_argmin (map (euclidean (X ! i)) (nc_centroids clf)) = Inr k \<and>
            k < length (nc_classes clf) \<and> Mas_cercano (table ! i) = nc_classes clf ! k)"
    if i: "i < length filenames" for i
  proof -
    from i r have *: "i < length labels" "i < length D" "Texto (table ! i) = filenames ! i"
      "Autor (table ! i) = labels ! i"
      "\<exists>k. np_argmin (D ! i) = Inr k \<and> k < length (nc_classes clf) \<and>
            Mas_cercano (table ! i) = nc_classes clf ! k"
      by simp_all
    from *(2) c have "i < length X" "D ! i = map (euclidean (X ! i)) (nc_centroids clf)"
      by simp_all
    with * show ?thesis by simp
  qed
  from a b show ?thesis by blast
qed

lemma fit_Inr:
  assumes "fit X y = Inr clf"
  shows "length X = length y" and "\<forall>row \<in> set X. length row = n_features X"
    and "2 \<le> length (sort (remdups y))"
    and "nc_classes clf = sort (remdups y)"
    and "nc_centroids clf = map (\<lambda>c. centroid (n_features X)
            (map fst (filter (\<lambda>(row, l). l = c) (zip X y)))) (sort (remdups y))"
  using assms unfolding fit_def by (auto split: if_splits)

lemma fit_few_labels:
  assumes "length (remdups y) < 2"
  shows "fit X y = Inl (ValueError NearestCentroid_fit)"
  using assms unfolding fit_def by simp

lemma length_centroid: "length (centroid d rows) = d"
  unfolding centroid_def by simp

lemma fit_centroids:
  assumes "fit X y = Inr clf"
  shows "length (nc_centroids clf) = length (nc_classes clf)"
    and "\<forall>c \<in> set (nc_centroids clf). length c = n_features X"
    and "n_features (nc_centroids clf) = n_features X"
    and "2 \<le> length (nc_classes clf)"
    and "distinct (nc_classes clf)"
proof -
  note f = fit_Inr [OF assms]
  show len: "length (nc_centroids clf) = length (nc_classes clf)"
    unfolding f(4,5) by simp
  show w: "\<forall>c \<in> set (nc_centroids clf). length c = n_features X"
    unfolding f(5) by (auto simp: length_centroid)
  show two: "2 \<le> length (nc_classes clf)"
    unfolding f(4) by (rule f(3))
  show "distinct (nc_classes clf)"
    unfolding f(4) by simp
  from len two obtain c C where C: "nc_centroids clf = c # C"
    by (cases "nc_centroids clf") auto
  with w show "n_features (nc_centroids clf) = n_features X"
    by (simp add: n_features_def)
qed

lemma fit_length:
  assumes "fit X y = Inr clf"
  shows "length X = length y"
  by (rule fit_Inr(1) [OF assms])

text \<open>The definitions that running the pipeline on a concrete corpus unfolds.\<close>

lemmas run_simps = load_and_train_model_def load_corpus_def endswith_def author_of_def
  slice_to_neg_def sample_lib_def strict_lib_def sample_tfidf_def sample_svd_def strict_svd_def
  fit_def n_features_def centroid_def


section \<open>Runs with the checked stand-in library\<close>

lemma train_steps:
  assumes "load_corpus dir = Inr (texts, labels, filenames)"
    and "tfidf_fit_transform lib \<lparr>analyzer = ''char'', ngram_range = (ngram_min, ngram_max)\<rparr> texts = Inr X"
    and "svd_fit_transform lib \<lparr>n_components = 50, random_state = 42\<rparr> X = Inr X_reduced"
  shows "load_and_train_model lib ngram_min ngram_max dir =
    (case fit X_reduced labels of
       Inl e \<Rightarrow> Inl e
     | Inr clf \<Rightarrow> Inr (clf, \<lparr>analyzer = ''char'', ngram_range = (ngram_min, ngram_max)\<rparr>,
                      \<lparr>n_components = 50, random_state = 42\<rparr>, texts, labels, filenames, X_reduced))"
  using assms unfolding load_and_train_model_def by (simp add: Let_def)

lemma fit_succeeds:
  assumes "length X = length y" and "\<forall>row \<in> set X. length row = n_features X"
    and "2 \<le> length (remdups y)"
  shows "\<exists>clf. fit X y = Inr clf"
  using assms unfolding fit_def by simp

lemma count_vectorizer_rows:
  assumes "\<not> snd (ngram_range v) < fst (ngram_range v)" and "vocabulary v texts \<noteq> []"
  shows "count_vectorizer v texts =
    Inr (map (\<lambda>t. map (\<lambda>g. real (count_list (char_ngrams v t) g)) (vocabulary v texts)) texts)"
  using assms unfolding count_vectorizer_def by simp

lemma strict_svd_wide:
  assumes "\<forall>row \<in> set X. length row = w" and "X \<noteq> []" and "50 \<le> w"
  shows "strict_svd \<lparr>n_components = 50, random_state = 42\<rparr> X = Inr (map (take 50) X)"
proof -
  from assms(1,2) have "n_features X = w"
    by (cases X) (simp_all add: n_features_def)
  with assms(3) show ?thesis
    unfolding strict_svd_def by simp
qed

lemma vocabulary_two_authors:
  "length (vocabulary \<lparr>analyzer = ''char'', ngram_range = (2, 4)\<rparr>
     [''abcdefghijkl'', ''lkjihgfedcba'']) = 60"
  unfolding vocabulary_def by (simp add: char_ngrams_def ngrams_def upt_rec)

lemmas load_simps = load_corpus_def endswith_def author_of_def slice_to_neg_def

lemma ngrams_aa: "char_ngrams \<lparr>analyzer = ''char'', ngram_range = (2, 4)\<rparr> ''aa'' = [''aa'']"
  by (simp add: char_ngrams_def ngrams_def upt_rec)

lemma vocabulary_aa: "vocabulary \<lparr>analyzer = ''char'', ngram_range = (2, 4)\<rparr> [''aa''] = [''aa'']"
  unfolding vocabulary_def by (simp add: ngrams_aa)

lemma svd_narrow: "svd_fit_transform checked_lib \<lparr>n_components = 50, random_state = 42\<rparr> [[1]] =
      Inl (ValueError Svd)"
  by (simp add: checked_lib_def strict_svd_def n_features_def)

lemma load_single: "load_corpus [(''A_1.txt'', Inr ''aa'')] = Inr ([''aa''], [''A''], [''A_1''])"
  by (simp add: load_simps)


lemma vectorizer_aa: "tfidf_fit_transform checked_lib \<lparr>analyzer = ''char'', ngram_range = (2, 4)\<rparr> [''aa''] = Inr [[1]]"
  using count_vectorizer_rows [of "\<lparr>analyzer = ''char'', ngram_range = (2, 4)\<rparr>" "[''aa'']"]
  by (simp add: checked_lib_def vocabulary_aa ngrams_aa)

lemma n_features_width:
  assumes "\<forall>row \<in> set X. length row = w" and "X \<noteq> []"
  shows "n_features X = w"
  using assms by (cases X) (simp_all add: n_features_def)

lemma two_texts_run:
  assumes load: "load_corpus dir = Inr ([''abcdefghijkl'', ''lkjihgfedcba''], labels, filenames)"
  shows "\<exists>X_reduced.
    length X_reduced = 2 \<and> (\<forall>row \<in> set X_reduced. length row = n_features X_reduced) \<and>
    (\<exists>X. tfidf_fit_transform checked_lib \<lparr>analyzer = ''char'', ngram_range = (2, 4)\<rparr>
           [''abcdefghijkl'', ''lkjihgfedcba''] = Inr X \<and>
         svd_fit_transform checked_lib \<lparr>n_components = 50, random_state = 42\<rparr> X = Inr X_reduced)"
proof -
  let ?v = "\<lparr>analyzer = ''char'', ngram_range = (2, 4)\<rparr>"
  let ?texts = "[''abcdefghijkl'', ''lkjihgfedcba'']"
  define X where "X = map (\<lambda>t. map (\<lambda>g. real (count_list (char_ngrams ?v t) g)) (vocabulary ?v ?texts)) ?texts"
  have voc: "vocabulary ?v ?texts \<noteq> []"
    using vocabulary_two_authors by auto
  have "count_vectorizer ?v ?texts = Inr X"
    unfolding X_def by (rule count_vectorizer_rows [OF _ voc]) simp
  then have vec: "tfidf_fit_transform checked_lib ?v ?texts = Inr X"
    by (simp add: checked_lib_def)
  have rows: "\<forall>row \<in> set X. length row = 60"
    unfolding X_def using vocabulary_two_authors by simp
  have ne: "X \<noteq> []" and len: "length X = 2"
    unfolding X_def by simp_all
  have "strict_svd \<lparr>n_components = 50, random_state = 42\<rparr> X = Inr (map (take 50) X)"
    by (rule strict_svd_wide [OF rows ne]) simp
  then have svd: "svd_fit_transform checked_lib \<lparr>n_components = 50, random_state = 42\<rparr> X =
      Inr (map (take 50) X)"
    by (simp add: checked_lib_def)
  have w: "\<forall>row \<in> set (map (take 50) X). length row = 50"
    using rows by simp
  from ne have "map (take 50) X \<noteq> []" by simp
  from n_features_width [OF w this] w
  have rect: "\<forall>row \<in> set (map (take 50) X). length row = n_features (map (take 50) X)"
    by simp
  from len have "length (map (take 50) X) = 2" by simp
  with rect vec svd show ?thesis by blast
qed


section \<open>Claims about the corpus loader\<close>

text \<open>
  C4. For every entry of the working directory with the extension .txt the loader creates
  one Document, in listing order: its text is the file's contents, its author label is the
  part of the file name before the first underscore, or "Desconocido" when the name has no
  underscore, and its display name is the file name without the extension. Entries
  without the extension give no Document. The load fails only with the error of a .txt
  entry that cannot be read.
\<close>

theorem loader_documents:
  "(case load_corpus dir of
      Inr r \<Rightarrow> list_all2 is_document_of (documents r) (filter (\<lambda>(f, c). recognized f) dir)
    | Inl e \<Rightarrow> \<exists>f. recognized f \<and> (f, Inl e) \<in> set dir)"
proof (cases "load_corpus dir")
  case (Inr r)
  then show ?thesis
    by (simp add: load_corpus_documents)
next
  case (Inl e)
  from load_loop_Inl [OF Inl [unfolded load_corpus_def]] Inl show ?thesis
    by (auto simp: recognized_endswith)
qed

theorem loader_documents_witness:
  "list_all2 is_document_of
     (documents ([''text A'', ''x''], [''Seneca'', ''Desconocido''], [''Seneca_A_1'', ''plain'']))
     (filter (\<lambda>(f, c). recognized f)
        [(''Seneca_A_1.txt'', Inr ''text A''), (''notes.md'', Inl OSError),
         (''plain.txt'', Inr ''x'')])"
  using loader_documents
    [of "[(''Seneca_A_1.txt'', Inr ''text A''), (''notes.md'', Inl OSError),
          (''plain.txt'', Inr ''x'')]"]
  by (simp add: load_corpus_def endswith_def author_of_def slice_to_neg_def)

text \<open>
  C10. A .txt file name whose first character is the underscore gets the empty string as
  its author label, which is a label different from the sentinel "Desconocido".
\<close>

theorem leading_underscore_label:
  assumes "endswith (CHR ''_'' # name) ''.txt''"
  shows "author_of (CHR ''_'' # name) = [] \<and>
         author_of (CHR ''_'' # name) \<noteq> ''Desconocido'' \<and>
         load_corpus [(CHR ''_'' # name, Inr t)] =
           Inr ([t], [[]], [slice_to_neg 4 (CHR ''_'' # name)])"
  using assms by (simp add: author_of_def load_corpus_def)

theorem leading_underscore_label_witness:
  "endswith ''_foo.txt'' ''.txt'' \<and> author_of ''_foo.txt'' = [] \<and>
   load_corpus [(''_foo.txt'', Inr ''abc'')] = Inr ([''abc''], [[]], [''_foo''])"
proof -
  have h: "endswith (CHR ''_'' # ''foo.txt'') ''.txt''"
    by (simp add: endswith_def)
  from leading_underscore_label [OF h, of "''abc''"] h show ?thesis
    by (simp add: slice_to_neg_def)
qed

section \<open>Claims about the projection parameters\<close>

text \<open>
  C7. For a corpus of n documents the perplexity of the stochastic neighbour embedding is
  min(30, max(2, n div 3)) and the neighbour count of the manifold technique is
  min(15, max(2, n div 3)): each is the specification's rule at that technique's library
  default.
\<close>

theorem locality_parameters:
  fixes n :: nat
  shows "perplexity (int n) = int (min 30 (max 2 (n div 3))) \<and>
         n_neighbors (int n) = int (min 15 (max 2 (n div 3))) \<and>
         perplexity (int n) = locality_spec 30 (int n) \<and>
         n_neighbors (int n) = locality_spec 15 (int n)"
proof -
  have d: "int n div 3 = int (n div 3)"
    by (simp add: zdiv_int)
  show ?thesis
    unfolding perplexity_def n_neighbors_def locality_spec_def d
    by (simp add: min_def max_def)
qed

theorem locality_parameters_witness:
  "perplexity 4 = 2 \<and> n_neighbors 4 = 2 \<and> perplexity 60 = 20 \<and> n_neighbors 60 = 15"
  using locality_parameters [of 4] locality_parameters [of 60] by simp

section \<open>Claims about the evaluator\<close>

text \<open>
  C3. For true labels, predicted labels and display names of the same length, a vocabulary
  without repetition and display names without repetition (what the loader and the
  classifier deliver), the evaluator returns exactly one Confusion Record for each
  off-diagonal cell of the confusion matrix with a nonzero count, in row order; the lists
  of misclassified files of two different records are disjoint; and the number of files
  listed in all records is the sum of the off-diagonal cells.
\<close>

theorem confusion_records:
  assumes "length y_pred = length labels" and "length filenames = length labels"
    and "distinct (nc_classes clf)" and "distinct filenames"
  shows "\<exists>cm errors.
    confusion_matrix labels y_pred (nc_classes clf) = Inr cm \<and>
    identify_confusion_errors labels y_pred filenames clf = Inr errors \<and>
    map (\<lambda>r. (true_label r, predicted_label r)) errors =
      map (\<lambda>(i, j). (nc_classes clf ! i, nc_classes clf ! j))
        (filter (\<lambda>(i, j). i \<noteq> j \<and> 0 < cm ! i ! j) (cells (length (nc_classes clf)))) \<and>
    distinct (map (\<lambda>r. (true_label r, predicted_label r)) errors) \<and>
    (\<forall>a < length errors. \<forall>b < length errors. a \<noteq> b \<longrightarrow>
       set (misclassified_files (errors ! a)) \<inter> set (misclassified_files (errors ! b)) = {}) \<and>
    (\<Sum>r\<leftarrow>errors. length (misclassified_files r)) =
      (\<Sum>(i, j)\<leftarrow>cells (length (nc_classes clf)). if i \<noteq> j then cm ! i ! j else 0)"
proof -
  let ?cl = "nc_classes clf"
  let ?n = "length ?cl"
  let ?G = "\<lambda>ci cj. map (\<lambda>p. filenames ! fst p)
       (filter (\<lambda>p. snd p = ci \<and> y_pred ! fst p = cj) (enumerate 0 labels))"
  let ?mk = "\<lambda>(i, j). \<lparr>true_label = ?cl ! i, predicted_label = ?cl ! j,
                     misclassified_files = ?G (?cl ! i) (?cl ! j)\<rparr>"
  obtain cm where cm: "confusion_matrix labels y_pred ?cl = Inr cm"
    unfolding confusion_matrix_def using assms(1) by simp
  let ?nz = "filter (\<lambda>(i, j). i \<noteq> j \<and> 0 < cm ! i ! j) (cells ?n)"
  let ?errors = "map ?mk ?nz"
  have run: "identify_confusion_errors labels y_pred filenames clf = Inr ?errors"
    unfolding identify_confusion_errors_def cm
    using errors_loop_collect [of labels y_pred filenames ?G "cells ?n" cm ?cl "[]",
        OF misclassified_enumerate [OF assms(1,2)]]
    by simp
  have pairs: "map (\<lambda>r. (true_label r, predicted_label r)) ?errors =
      map (\<lambda>(i, j). (?cl ! i, ?cl ! j)) ?nz"
    by (simp add: case_prod_unfold)
  have inj: "inj_on (\<lambda>(i, j). (?cl ! i, ?cl ! j)) (set ?nz)"
    using assms(3) by (auto simp: inj_on_def cells_range nth_eq_iff_index_eq)
  have dist_pairs: "distinct (map (\<lambda>r. (true_label r, predicted_label r)) ?errors)"
    unfolding pairs using inj distinct_cells [of ?n] by (simp add: distinct_map)
  have disj: "set (misclassified_files (?errors ! a)) \<inter> set (misclassified_files (?errors ! b)) = {}"
    if a: "a < length ?errors" and b: "b < length ?errors" and ab: "a \<noteq> b" for a b
  proof -
    obtain i j where ca: "?nz ! a = (i, j)" by (cases "?nz ! a")
    obtain i' j' where cb: "?nz ! b = (i', j')" by (cases "?nz ! b")
    from a b have a': "a < length ?nz" and b': "b < length ?nz" by simp_all
    have "distinct ?nz" using distinct_cells [of ?n] by simp
    with a' b' ab have ne: "?nz ! a \<noteq> ?nz ! b"
      by (simp add: nth_eq_iff_index_eq)
    from a' have "?nz ! a \<in> set ?nz" by (rule nth_mem)
    then have ra: "i < ?n" "j < ?n" unfolding ca by (simp_all add: cells_range)
    from b' have "?nz ! b \<in> set ?nz" by (rule nth_mem)
    then have rb: "i' < ?n" "j' < ?n" unfolding cb by (simp_all add: cells_range)
    from ne ra rb assms(3) have "(?cl ! i, ?cl ! j) \<noteq> (?cl ! i', ?cl ! j')"
      unfolding ca cb by (simp add: nth_eq_iff_index_eq)
    from files_disjoint [OF assms(4) assms(2) this, of y_pred] a' b' show ?thesis
      by (simp add: ca cb)
  qed
  have cell: "length (misclassified_files (?mk c)) = (case c of (i, j) \<Rightarrow> cm ! i ! j)"
    if "c \<in> set (cells ?n)" for c
  proof -
    obtain i j where c: "c = (i, j)" by (cases c)
    with that have "i < ?n" "j < ?n" by (simp_all add: cells_range)
    from confusion_matrix_cell [OF cm this] show ?thesis
      by (simp add: c)
  qed
  have "(\<Sum>r\<leftarrow>?errors. length (misclassified_files r)) = (\<Sum>(i, j)\<leftarrow>?nz. cm ! i ! j)"
    unfolding map_map comp_def
    by (rule arg_cong [where f = sum_list], rule map_cong [OF refl]) (simp add: cell)
  also have "\<dots> = (\<Sum>(i, j)\<leftarrow>cells ?n. if i \<noteq> j then cm ! i ! j else 0)"
    by (rule sum_filter_cells)
  finally have total: "(\<Sum>r\<leftarrow>?errors. length (misclassified_files r)) =
      (\<Sum>(i, j)\<leftarrow>cells ?n. if i \<noteq> j then cm ! i ! j else 0)" .
  from cm run pairs dist_pairs disj total show ?thesis
    by blast
qed

theorem confusion_records_witness:
  "length [''A'', ''B'', ''A''] = length [''A'', ''A'', ''B''] \<and>
   length [''f1'', ''f2'', ''f3''] = length [''A'', ''A'', ''B''] \<and>
   distinct (nc_classes \<lparr>nc_classes = [''A'', ''B''], nc_centroids = []\<rparr>) \<and>
   distinct [''f1'', ''f2'', ''f3''] \<and>
   identify_confusion_errors [''A'', ''A'', ''B''] [''A'', ''B'', ''A''] [''f1'', ''f2'', ''f3'']
       \<lparr>nc_classes = [''A'', ''B''], nc_centroids = []\<rparr> =
     Inr [\<lparr>true_label = ''A'', predicted_label = ''B'', misclassified_files = [''f2'']\<rparr>,
          \<lparr>true_label = ''B'', predicted_label = ''A'', misclassified_files = [''f3'']\<rparr>] \<and>
   (\<exists>cm errors.
      confusion_matrix [''A'', ''A'', ''B''] [''A'', ''B'', ''A''] [''A'', ''B''] = Inr cm \<and>
      identify_confusion_errors [''A'', ''A'', ''B''] [''A'', ''B'', ''A''] [''f1'', ''f2'', ''f3'']
        \<lparr>nc_classes = [''A'', ''B''], nc_centroids = []\<rparr> = Inr errors \<and>
      (\<Sum>r\<leftarrow>errors. length (misclassified_files r)) =
        (\<Sum>(i, j)\<leftarrow>cells (length [''A'', ''B'']). if i \<noteq> j then cm ! i ! j else 0))"
proof -
  have run: "identify_confusion_errors [''A'', ''A'', ''B''] [''A'', ''B'', ''A''] [''f1'', ''f2'', ''f3'']
       \<lparr>nc_classes = [''A'', ''B''], nc_centroids = []\<rparr> =
     Inr [\<lparr>true_label = ''A'', predicted_label = ''B'', misclassified_files = [''f2'']\<rparr>,
          \<lparr>true_label = ''B'', predicted_label = ''A'', misclassified_files = [''f3'']\<rparr>]"
    by (simp add: identify_confusion_errors_def confusion_matrix_def cells_def upt_rec)
  from confusion_records
    [of "[''A'', ''B'', ''A'']" "[''A'', ''A'', ''B'']" "[''f1'', ''f2'', ''f3'']"
        "\<lparr>nc_classes = [''A'', ''B''], nc_centroids = []\<rparr>"]
  obtain cm errors where
    "confusion_matrix [''A'', ''A'', ''B''] [''A'', ''B'', ''A''] [''A'', ''B''] = Inr cm"
    "identify_confusion_errors [''A'', ''A'', ''B''] [''A'', ''B'', ''A''] [''f1'', ''f2'', ''f3'']
        \<lparr>nc_classes = [''A'', ''B''], nc_centroids = []\<rparr> = Inr errors"
    "(\<Sum>r\<leftarrow>errors. length (misclassified_files r)) =
        (\<Sum>(i, j)\<leftarrow>cells (length [''A'', ''B'']). if i \<noteq> j then cm ! i ! j else 0)"
    by auto
  with run show ?thesis
    by simp
qed

section \<open>Claims about the classifier and the distance reporter\<close>

text \<open>
  C6, as stated: the classifier predicts each of its own centroids as that centroid's
  label. This fails when two classes have the same centroid: the tie goes to the first
  class of the vocabulary. Documents 0 and 4 of author B and document 2 of author A give
  both authors the centroid 2, and the centroid of B is predicted as A.
\<close>

theorem centroid_reflexivity_counterexample:
  "fit [[0], [2], [4]] [''B'', ''A'', ''B''] =
     Inr \<lparr>nc_classes = [''A'', ''B''], nc_centroids = [[2], [2]]\<rparr> \<and>
   predict \<lparr>nc_classes = [''A'', ''B''], nc_centroids = [[2], [2]]\<rparr> [[2], [2]] =
     Inr [''A'', ''A'']"
  by (simp add: fit_def n_features_def centroid_def predict_def np_argmin_def euclidean_def)

text \<open>
  C6, amended. For every fitted classifier whose centroids are pairwise different,
  predicting the centroids returns the vocabulary: each centroid gets its own label.
\<close>

theorem centroids_predict_own_labels:
  assumes "fit X y = Inr clf" and "distinct (nc_centroids clf)"
  shows "predict clf (nc_centroids clf) = Inr (nc_classes clf)"
proof -
  let ?C = "nc_centroids clf"
  note c = fit_centroids [OF assms(1)]
  have arg: "np_argmin (map (euclidean (?C ! i)) ?C) = Inr i" if i: "i < length ?C" for i
  proof (rule np_argmin_first_zero)
    show "i < length (map (euclidean (?C ! i)) ?C)" using i by simp
    show "map (euclidean (?C ! i)) ?C ! i = 0"
      using i by (simp add: euclidean_eq_0_iff)
    show "\<forall>j < length (map (euclidean (?C ! i)) ?C). 0 \<le> map (euclidean (?C ! i)) ?C ! j"
      by (simp add: euclidean_nonneg)
    show "\<forall>j < i. map (euclidean (?C ! i)) ?C ! j \<noteq> 0"
    proof (intro allI impI)
      fix j assume j: "j < i"
      with i have jl: "j < length ?C" by simp
      from i jl c(2) have "length (?C ! i) = length (?C ! j)" by simp
      moreover from assms(2) i jl j have "?C ! i \<noteq> ?C ! j"
        by (simp add: nth_eq_iff_index_eq)
      ultimately have "euclidean (?C ! i) (?C ! j) \<noteq> 0"
        by (simp add: euclidean_eq_0_iff)
      with jl show "map (euclidean (?C ! i)) ?C ! j \<noteq> 0" by simp
    qed
  qed
  have "predict_rows clf ?C = Inr (map (\<lambda>k. nc_classes clf ! k) [0..<length ?C])"
    by (rule predict_rows_nth) (simp_all add: arg c(1))
  also have "map (\<lambda>k. nc_classes clf ! k) [0..<length ?C] = nc_classes clf"
    unfolding c(1) by (rule map_nth)
  finally have rows: "predict_rows clf ?C = Inr (nc_classes clf)" .
  have "\<not> (\<exists>row \<in> set ?C. length row \<noteq> n_features ?C)"
    using c(2,3) by simp
  with rows show ?thesis
    unfolding predict_def by simp
qed

theorem centroids_predict_own_labels_witness:
  "fit [[0], [2], [4]] [''B'', ''A'', ''B''] =
     Inr \<lparr>nc_classes = [''A'', ''B''], nc_centroids = [[2], [2]]\<rparr> \<and>
   fit [[0], [2]] [''B'', ''A''] = Inr \<lparr>nc_classes = [''A'', ''B''], nc_centroids = [[2], [0]]\<rparr> \<and>
   distinct (nc_centroids \<lparr>nc_classes = [''A'', ''B''], nc_centroids = [[2], [0]]\<rparr>) \<and>
   predict \<lparr>nc_classes = [''A'', ''B''], nc_centroids = [[2], [0]]\<rparr> [[2], [0]] = Inr [''A'', ''B'']"
proof -
  have f: "fit [[0], [2]] [''B'', ''A''] = Inr \<lparr>nc_classes = [''A'', ''B''], nc_centroids = [[2], [0]]\<rparr>"
    by (simp add: fit_def n_features_def centroid_def)
  have g: "fit [[0], [2], [4]] [''B'', ''A'', ''B''] =
     Inr \<lparr>nc_classes = [''A'', ''B''], nc_centroids = [[2], [2]]\<rparr>"
    by (simp add: fit_def n_features_def centroid_def)
  have d: "distinct (nc_centroids \<lparr>nc_classes = [''A'', ''B''], nc_centroids = [[2], [0]]\<rparr>)"
    by simp
  from centroids_predict_own_labels [OF f d] f g d show ?thesis
    by simp
qed

text \<open>
  C2. Whenever the classifier's prediction and the distance table are both computed for
  the same dense vectors, the table has one row per display name and, in every row i, the
  nearest label is the label of the argmin k of row i's Euclidean distances to the
  centroids (no centroid is closer than centroid k) and is equal to the classifier's
  prediction for document i.
\<close>

theorem nearest_is_argmin_and_prediction:
  assumes "predict clf X = Inr y_pred"
    and "distance_matrix X clf labels filenames = Inr table"
  shows "length table = length filenames \<and>
    (\<forall>i < length table. \<exists>k.
       np_argmin (map (euclidean (X ! i)) (nc_centroids clf)) = Inr k \<and>
       (\<forall>j < length (nc_centroids clf).
          euclidean (X ! i) (nc_centroids clf ! k) \<le> euclidean (X ! i) (nc_centroids clf ! j)) \<and>
       Mas_cercano (table ! i) = nc_classes clf ! k \<and>
       Mas_cercano (table ! i) = y_pred ! i)"
proof -
  note d = distance_matrix_Inr [OF assms(2)]
  from assms(1) have rows: "predict_rows clf X = Inr y_pred"
    unfolding predict_def by (simp split: if_splits)
  note p = predict_rows_Inr [OF rows]
  from d have len: "length table = length filenames" by simp
  have row: "\<exists>k. np_argmin (map (euclidean (X ! i)) (nc_centroids clf)) = Inr k \<and>
       (\<forall>j < length (nc_centroids clf).
          euclidean (X ! i) (nc_centroids clf ! k) \<le> euclidean (X ! i) (nc_centroids clf ! j)) \<and>
       Mas_cercano (table ! i) = nc_classes clf ! k \<and>
       Mas_cercano (table ! i) = y_pred ! i" if "i < length table" for i
  proof -
    from that len have i: "i < length filenames" by simp
    with d obtain k where iX: "i < length X"
      and k: "np_argmin (map (euclidean (X ! i)) (nc_centroids clf)) = Inr k"
      and near: "Mas_cercano (table ! i) = nc_classes clf ! k"
      by blast
    from p iX obtain k' where k': "np_argmin (map (euclidean (X ! i)) (nc_centroids clf)) = Inr k'"
      and y: "y_pred ! i = nc_classes clf ! k'"
      by blast
    from k k' have "k' = k" by simp
    with y near have same: "Mas_cercano (table ! i) = y_pred ! i" by simp
    from np_argmin_Inr(1,3) [OF k]
    have "\<forall>j < length (nc_centroids clf).
          euclidean (X ! i) (nc_centroids clf ! k) \<le> euclidean (X ! i) (nc_centroids clf ! j)"
      by simp
    with k near same show ?thesis by blast
  qed
  from len row show ?thesis by blast
qed

theorem nearest_is_argmin_and_prediction_witness:
  "predict \<lparr>nc_classes = [''A'', ''B''], nc_centroids = [[1, 2], [3, 0]]\<rparr> [[3, 1], [1, 1]] =
     Inr [''B'', ''A''] \<and>
   (\<exists>table. distance_matrix [[3, 1], [1, 1]]
        \<lparr>nc_classes = [''A'', ''B''], nc_centroids = [[1, 2], [3, 0]]\<rparr> [''A'', ''B'']
        [''f'', ''g''] = Inr table \<and>
      length table = 2 \<and> map Mas_cercano table = [''B'', ''A''])"
proof -
  let ?clf = "\<lparr>nc_classes = [''A'', ''B''], nc_centroids = [[1, 2], [3, 0]]\<rparr>"
  have p: "predict ?clf [[3, 1], [1, 1]] = Inr [''B'', ''A'']"
    by (simp add: predict_def np_argmin_def euclidean_def n_features_def)
  obtain table where t: "distance_matrix [[3, 1], [1, 1]] ?clf [''A'', ''B''] [''f'', ''g''] = Inr table"
    by (simp add: distance_matrix_def cdist_def np_argmin_def euclidean_def n_features_def)
  from nearest_is_argmin_and_prediction [OF p t]
  have len: "length table = 2" and "\<forall>i < length table. Mas_cercano (table ! i) = [''B'', ''A''] ! i"
    by auto
  then have "map Mas_cercano table = [''B'', ''A'']"
    by (intro nth_equalityI) simp_all
  with p t len show ?thesis by simp
qed


section \<open>Claims about the pipeline\<close>

text \<open>
  C5. When training, prediction and the distance table succeed, with a vectorizer that
  returns one row per text, every stage has one row per Document, in load order: the
  texts, labels and display names, the sparse matrix, the dense matrix, the predictions
  and the table all have as many rows as the directory has .txt entries, and row i of the
  table carries the display name and the label of the Document of the i-th .txt entry.
\<close>

theorem rows_follow_documents:
  assumes train: "load_and_train_model lib ngram_min ngram_max dir =
      Inr (clf, v, s, texts, labels, filenames, X_reduced)"
    and vec: "\<forall>u ts M. tfidf_fit_transform lib u ts = Inr M \<longrightarrow> length M = length ts"
    and pred: "predict clf X_reduced = Inr y_pred"
    and rep: "distance_matrix X_reduced clf labels filenames = Inr table"
  shows "length texts = length (filter (\<lambda>(f, c). recognized f) dir) \<and>
    length labels = length texts \<and> length filenames = length texts \<and>
    (\<exists>X. tfidf_fit_transform lib v texts = Inr X \<and> length X = length texts \<and>
         svd_fit_transform lib s X = Inr X_reduced) \<and>
    length X_reduced = length texts \<and> length y_pred = length texts \<and>
    length table = length texts \<and>
    (\<forall>i < length texts.
       is_document_of \<lparr>raw_text = texts ! i, author_label = Autor (table ! i),
                       display_name = Texto (table ! i)\<rparr>
         (filter (\<lambda>(f, c). recognized f) dir ! i))"
proof -
  from train obtain X where load: "load_corpus dir = Inr (texts, labels, filenames)"
    and X: "tfidf_fit_transform lib v texts = Inr X"
    and R: "svd_fit_transform lib s X = Inr X_reduced"
    and fit: "fit X_reduced labels = Inr clf"
    unfolding load_and_train_model_def
    by (auto simp: Let_def split: sum.splits)
  note l = load_corpus_lengths [OF load]
  have n: "length texts = length (filter (\<lambda>(f, c). recognized f) dir)"
    using l(1) by (simp add: recognized_endswith)
  from vec X have lX: "length X = length texts" by blast
  from fit_length [OF fit] l have lR: "length X_reduced = length texts" by simp
  from pred have "predict_rows clf X_reduced = Inr y_pred"
    unfolding predict_def by (simp split: if_splits)
  from predict_rows_Inr [OF this] lR have ly: "length y_pred = length texts" by simp
  note d = distance_matrix_Inr [OF rep]
  from d l have lt: "length table = length texts" by simp
  have docs: "list_all2 is_document_of (documents (texts, labels, filenames))
      (filter (\<lambda>(f, c). recognized f) dir)"
    by (rule load_corpus_documents [OF load])
  have row: "is_document_of \<lparr>raw_text = texts ! i, author_label = Autor (table ! i),
                       display_name = Texto (table ! i)\<rparr>
         (filter (\<lambda>(f, c). recognized f) dir ! i)" if i: "i < length texts" for i
  proof -
    from i l d have "Texto (table ! i) = filenames ! i" "Autor (table ! i) = labels ! i"
      by simp_all
    moreover from docs i l
    have "is_document_of (documents (texts, labels, filenames) ! i)
        (filter (\<lambda>(f, c). recognized f) dir ! i)"
      by (simp add: list_all2_conv_all_nth length_documents)
    ultimately show ?thesis
      using i l by (simp add: documents_nth)
  qed
  from n l X lX R lR ly lt row show ?thesis by blast
qed

theorem rows_follow_documents_witness:
  "\<exists>clf v s X_reduced table.
     load_and_train_model sample_lib 2 4
       [(''A_1.txt'', Inr ''aa''), (''notes.md'', Inl OSError), (''B_1.txt'', Inr ''bbb'')] =
       Inr (clf, v, s, [''aa'', ''bbb''], [''A'', ''B''], [''A_1'', ''B_1''], X_reduced) \<and>
     predict clf X_reduced = Inr [''A'', ''B''] \<and>
     distance_matrix X_reduced clf [''A'', ''B''] [''A_1'', ''B_1''] = Inr table \<and>
     length X_reduced = 2 \<and> length table = 2 \<and>
     is_document_of \<lparr>raw_text = ''bbb'', author_label = Autor (table ! 1),
         display_name = Texto (table ! 1)\<rparr> (''B_1.txt'', Inr ''bbb'')"
proof -
  let ?dir = "[(''A_1.txt'', Inr ''aa''), (''notes.md'', Inl OSError), (''B_1.txt'', Inr ''bbb'')]"
  let ?clf = "\<lparr>nc_classes = [''A'', ''B''], nc_centroids = [[2, 2], [3, 0]]\<rparr>"
  let ?v = "\<lparr>analyzer = ''char'', ngram_range = (2, 4)\<rparr>"
  let ?s = "\<lparr>n_components = 50, random_state = 42\<rparr>"
  have train: "load_and_train_model sample_lib 2 4 ?dir =
      Inr (?clf, ?v, ?s, [''aa'', ''bbb''], [''A'', ''B''], [''A_1'', ''B_1''], [[2, 2], [3, 0]])"
    by (simp add: run_simps)
  have vec: "\<forall>u ts M. tfidf_fit_transform sample_lib u ts = Inr M \<longrightarrow> length M = length ts"
    by (auto simp: sample_lib_def sample_tfidf_def)
  have pred: "predict ?clf [[2, 2], [3, 0]] = Inr [''A'', ''B'']"
    by (simp add: predict_def np_argmin_def euclidean_def n_features_def)
  obtain table where rep: "distance_matrix [[2, 2], [3, 0]] ?clf [''A'', ''B''] [''A_1'', ''B_1''] = Inr table"
    by (simp add: distance_matrix_def cdist_def np_argmin_def euclidean_def n_features_def)
  have rec: "filter (\<lambda>(f, c). recognized f) ?dir = [(''A_1.txt'', Inr ''aa''), (''B_1.txt'', Inr ''bbb'')]"
    by (simp add: recognized_endswith endswith_def)
  from rows_follow_documents [OF train vec pred rep]
  have "length table = 2"
    and "is_document_of \<lparr>raw_text = ''bbb'', author_label = Autor (table ! 1),
         display_name = Texto (table ! 1)\<rparr> (''B_1.txt'', Inr ''bbb'')"
    unfolding rec by auto
  with train pred rep show ?thesis by simp
qed

text \<open>
  C1, as stated: on a corpus with fewer documents or terms than 50 the rank is clamped
  or a dimensionality error is reported, and the factorization cannot fail. On a corpus of
  two documents with two terms the factorization is still asked for rank 50: a factorization
  that rejects a rank above the number of columns fails, and its error is the pipeline's
  result; one that accepts it returns, with the rank 50 unchanged.
\<close>

theorem rank_clamped_counterexample:
  "load_and_train_model strict_lib 2 4 [(''A_1.txt'', Inr ''aa''), (''B_1.txt'', Inr ''bbb'')] =
     Inl (ValueError Svd) \<and>
   load_and_train_model sample_lib 2 4 [(''A_1.txt'', Inr ''aa''), (''B_1.txt'', Inr ''bbb'')] =
     Inr (\<lparr>nc_classes = [''A'', ''B''], nc_centroids = [[2, 2], [3, 0]]\<rparr>,
          \<lparr>analyzer = ''char'', ngram_range = (2, 4)\<rparr>,
          \<lparr>n_components = 50, random_state = 42\<rparr>,
          [''aa'', ''bbb''], [''A'', ''B''], [''A_1'', ''B_1''], [[2, 2], [3, 0]])"
  by (simp add: run_simps)

text \<open>
  C1, amended. On a corpus with fewer than 50 documents or terms the factorization is
  requested with the fixed rank 50: if it fails, the pipeline fails with the same error,
  and if the pipeline returns, the factorization it returns has rank 50 and the dense
  matrix is what the library produced at that rank.
\<close>

theorem rank_is_fixed:
  assumes "load_corpus dir = Inr (texts, labels, filenames)"
    and "tfidf_fit_transform lib \<lparr>analyzer = ''char'', ngram_range = (ngram_min, ngram_max)\<rparr> texts = Inr X"
    and "length texts < 50 \<or> n_features X < 50"
  shows "(svd_fit_transform lib \<lparr>n_components = 50, random_state = 42\<rparr> X = Inl e \<longrightarrow>
            load_and_train_model lib ngram_min ngram_max dir = Inl e) \<and>
         (load_and_train_model lib ngram_min ngram_max dir = Inr (clf, v, s, t, l, f, X_reduced) \<longrightarrow>
            n_components s = 50 \<and>
            svd_fit_transform lib \<lparr>n_components = 50, random_state = 42\<rparr> X = Inr X_reduced)"
  using assms(1,2) unfolding load_and_train_model_def
  by (auto simp: Let_def split: sum.splits)

theorem rank_is_fixed_witness:
  "load_and_train_model strict_lib 1 3
     [(''A_1.txt'', Inr ''ab''), (''B_1.txt'', Inr ''abc''), (''C_1.txt'', Inr ''b'')] =
     Inl (ValueError Svd)"
proof -
  let ?dir = "[(''A_1.txt'', Inr ''ab''), (''B_1.txt'', Inr ''abc''), (''C_1.txt'', Inr ''b'')]"
  have load: "load_corpus ?dir = Inr ([''ab'', ''abc'', ''b''], [''A'', ''B'', ''C''], [''A_1'', ''B_1'', ''C_1''])"
    by (simp add: run_simps)
  have vec: "tfidf_fit_transform strict_lib \<lparr>analyzer = ''char'', ngram_range = (1, 3)\<rparr>
      [''ab'', ''abc'', ''b''] = Inr [[2, 1], [3, 1], [1, 0]]"
    by (simp add: run_simps)
  have small: "length [''ab'', ''abc'', ''b''] < 50 \<or> n_features [[2, 1], [3, 1], [1, 0 :: real]] < 50"
    by simp
  have fails: "svd_fit_transform strict_lib \<lparr>n_components = 50, random_state = 42\<rparr>
      [[2, 1], [3, 1], [1, 0]] = Inl (ValueError Svd)"
    by (simp add: run_simps)
  from rank_is_fixed [OF load vec small, of "ValueError Svd"] fails show ?thesis
    by simp
qed

text \<open>
  C8. With ngram_min > ngram_max, and a vectorizer that rejects such a range with its
  validation error, as the library's does, the pipeline never returns a feature matrix:
  when the corpus loads, its result is the vectorizer's validation error, and otherwise
  the error of the load.
\<close>

theorem inverted_range_rejected:
  assumes "ngram_max < ngram_min"
    and "\<forall>v ts. snd (ngram_range v) < fst (ngram_range v) \<longrightarrow>
           tfidf_fit_transform lib v ts = Inl (ValueError Tfidf)"
  shows "load_and_train_model lib ngram_min ngram_max dir =
    (case load_corpus dir of Inl e \<Rightarrow> Inl e | Inr r \<Rightarrow> Inl (ValueError Tfidf))"
proof (cases "load_corpus dir")
  case (Inl e)
  then show ?thesis
    unfolding load_and_train_model_def by simp
next
  case (Inr r)
  obtain texts labels filenames where r: "r = (texts, labels, filenames)"
    by (cases r)
  have "snd (ngram_range \<lparr>analyzer = ''char'', ngram_range = (ngram_min, ngram_max)\<rparr>)
      < fst (ngram_range \<lparr>analyzer = ''char'', ngram_range = (ngram_min, ngram_max)\<rparr>)"
    using assms(1) by simp
  with assms(2)
  have "tfidf_fit_transform lib \<lparr>analyzer = ''char'', ngram_range = (ngram_min, ngram_max)\<rparr> texts =
      Inl (ValueError Tfidf)"
    by blast
  then show ?thesis
    unfolding load_and_train_model_def Inr r by (simp add: Let_def)
qed

theorem inverted_range_rejected_witness:
  "load_and_train_model checked_lib 4 2
     [(''A_1.txt'', Inr ''abcdefghijkl''), (''B_1.txt'', Inr ''lkjihgfedcba'')] =
     Inl (ValueError Tfidf)"
proof -
  have inv: "(2 :: int) < 4" by simp
  have chk: "\<forall>v ts. snd (ngram_range v) < fst (ngram_range v) \<longrightarrow>
           tfidf_fit_transform checked_lib v ts = Inl (ValueError Tfidf)"
    by (simp add: checked_lib_def count_vectorizer_def)
  from inverted_range_rejected [OF inv chk] show ?thesis
    by (simp add: load_corpus_def endswith_def author_of_def slice_to_neg_def)
qed

text \<open>
  C9, as stated: a corpus with fewer than 2 documents or fewer than 2 distinct labels
  raises an EmptyCorpusError before nearest-centroid fitting. The program has no such error
  and no check before the fit. Two documents of one author, whose texts give the vectorizer
  60 n-grams, pass the vectorizer and the factorization, and the failure is the error
  raised by the nearest-centroid fit itself.
\<close>

theorem empty_corpus_counterexample:
  "load_and_train_model checked_lib 2 4
     [(''A_1.txt'', Inr ''abcdefghijkl''), (''A_2.txt'', Inr ''lkjihgfedcba'')] =
     Inl (ValueError NearestCentroid_fit)"
proof -
  have load: "load_corpus [(''A_1.txt'', Inr ''abcdefghijkl''), (''A_2.txt'', Inr ''lkjihgfedcba'')] =
      Inr ([''abcdefghijkl'', ''lkjihgfedcba''], [''A'', ''A''], [''A_1'', ''A_2''])"
    by (simp add: load_simps)
  from two_texts_run [OF load] obtain X X_reduced where
    run: "tfidf_fit_transform checked_lib \<lparr>analyzer = ''char'', ngram_range = (2, 4)\<rparr>
           [''abcdefghijkl'', ''lkjihgfedcba''] = Inr X"
      "svd_fit_transform checked_lib \<lparr>n_components = 50, random_state = 42\<rparr> X = Inr X_reduced"
    by blast
  have "fit X_reduced [''A'', ''A''] = Inl (ValueError NearestCentroid_fit)"
    by (rule fit_few_labels) simp
  with train_steps [OF load run] show ?thesis
    by simp
qed

text \<open>
  C9, amended. A corpus with fewer than 2 documents or fewer than 2 distinct labels makes
  training fail: with the vectorizer's error, or the factorization's, or, when both
  succeed, with the error of the nearest-centroid fit. A corpus with 2 distinct labels
  is accepted whenever the vectorizer and the factorization succeed with one dense row of
  one width per document, so that the least input training accepts has 2 documents with 2
  distinct labels.
\<close>

theorem training_needs_two_labels:
  assumes "load_corpus dir = Inr (texts, labels, filenames)"
  shows "(length texts < 2 \<or> length (remdups labels) < 2 \<longrightarrow>
      (\<exists>e. load_and_train_model lib ngram_min ngram_max dir = Inl e \<and>
        (tfidf_fit_transform lib \<lparr>analyzer = ''char'', ngram_range = (ngram_min, ngram_max)\<rparr> texts = Inl e \<or>
         (\<exists>X. tfidf_fit_transform lib \<lparr>analyzer = ''char'', ngram_range = (ngram_min, ngram_max)\<rparr> texts = Inr X \<and>
            (svd_fit_transform lib \<lparr>n_components = 50, random_state = 42\<rparr> X = Inl e \<or>
             (\<exists>X_reduced. svd_fit_transform lib \<lparr>n_components = 50, random_state = 42\<rparr> X = Inr X_reduced \<and>
                fit X_reduced labels = Inl e \<and> e = ValueError NearestCentroid_fit)))))) \<and>
    (\<forall>X X_reduced.
       tfidf_fit_transform lib \<lparr>analyzer = ''char'', ngram_range = (ngram_min, ngram_max)\<rparr> texts = Inr X \<and>
       svd_fit_transform lib \<lparr>n_components = 50, random_state = 42\<rparr> X = Inr X_reduced \<and>
       length X_reduced = length labels \<and>
       (\<forall>row \<in> set X_reduced. length row = n_features X_reduced) \<and>
       2 \<le> length (remdups labels) \<longrightarrow>
       (\<exists>clf. load_and_train_model lib ngram_min ngram_max dir =
          Inr (clf, \<lparr>analyzer = ''char'', ngram_range = (ngram_min, ngram_max)\<rparr>,
               \<lparr>n_components = 50, random_state = 42\<rparr>, texts, labels, filenames, X_reduced)))"
proof (intro conjI impI allI)
  assume small: "length texts < 2 \<or> length (remdups labels) < 2"
  from load_corpus_lengths [OF assms] have "length labels = length texts" by simp
  moreover have "length (remdups labels) \<le> length labels" by (rule length_remdups_leq)
  ultimately have few: "length (remdups labels) < 2" using small by linarith
  show "\<exists>e. load_and_train_model lib ngram_min ngram_max dir = Inl e \<and>
        (tfidf_fit_transform lib \<lparr>analyzer = ''char'', ngram_range = (ngram_min, ngram_max)\<rparr> texts = Inl e \<or>
         (\<exists>X. tfidf_fit_transform lib \<lparr>analyzer = ''char'', ngram_range = (ngram_min, ngram_max)\<rparr> texts = Inr X \<and>
            (svd_fit_transform lib \<lparr>n_components = 50, random_state = 42\<rparr> X = Inl e \<or>
             (\<exists>X_reduced. svd_fit_transform lib \<lparr>n_components = 50, random_state = 42\<rparr> X = Inr X_reduced \<and>
                fit X_reduced labels = Inl e \<and> e = ValueError NearestCentroid_fit))))"
    unfolding load_and_train_model_def using assms fit_few_labels [OF few]
    by (auto simp: Let_def split: sum.splits)
next
  fix X X_reduced
  assume h: "tfidf_fit_transform lib \<lparr>analyzer = ''char'', ngram_range = (ngram_min, ngram_max)\<rparr> texts = Inr X \<and>
       svd_fit_transform lib \<lparr>n_components = 50, random_state = 42\<rparr> X = Inr X_reduced \<and>
       length X_reduced = length labels \<and>
       (\<forall>row \<in> set X_reduced. length row = n_features X_reduced) \<and>
       2 \<le> length (remdups labels)"
  then obtain clf where "fit X_reduced labels = Inr clf"
    using fit_succeeds [of X_reduced labels] by blast
  with h train_steps [OF assms, of lib ngram_min ngram_max X X_reduced]
  show "\<exists>clf. load_and_train_model lib ngram_min ngram_max dir =
          Inr (clf, \<lparr>analyzer = ''char'', ngram_range = (ngram_min, ngram_max)\<rparr>,
               \<lparr>n_components = 50, random_state = 42\<rparr>, texts, labels, filenames, X_reduced)"
    by simp
qed

theorem training_needs_two_labels_witness:
  "load_and_train_model checked_lib 2 4 [(''A_1.txt'', Inr ''aa'')] = Inl (ValueError Svd) \<and>
   (\<exists>clf X_reduced. load_and_train_model checked_lib 2 4
       [(''A_1.txt'', Inr ''abcdefghijkl''), (''B_1.txt'', Inr ''lkjihgfedcba'')] =
     Inr (clf, \<lparr>analyzer = ''char'', ngram_range = (2, 4)\<rparr>,
          \<lparr>n_components = 50, random_state = 42\<rparr>, [''abcdefghijkl'', ''lkjihgfedcba''],
          [''A'', ''B''], [''A_1'', ''B_1''], X_reduced))"
proof -
  have small: "length [''aa''] < 2 \<or> length (remdups [''A'']) < 2" by simp
  from training_needs_two_labels [OF load_single, of checked_lib 2 4, THEN conjunct1, rule_format, OF small]
  have one: "load_and_train_model checked_lib 2 4 [(''A_1.txt'', Inr ''aa'')] = Inl (ValueError Svd)"
    by (auto simp: vectorizer_aa svd_narrow)
  have load2: "load_corpus [(''A_1.txt'', Inr ''abcdefghijkl''), (''B_1.txt'', Inr ''lkjihgfedcba'')] =
      Inr ([''abcdefghijkl'', ''lkjihgfedcba''], [''A'', ''B''], [''A_1'', ''B_1''])"
    by (simp add: load_simps)
  from two_texts_run [OF load2] obtain X X_reduced where
    run: "tfidf_fit_transform checked_lib \<lparr>analyzer = ''char'', ngram_range = (2, 4)\<rparr>
           [''abcdefghijkl'', ''lkjihgfedcba''] = Inr X"
      "svd_fit_transform checked_lib \<lparr>n_components = 50, random_state = 42\<rparr> X = Inr X_reduced"
    and shape: "length X_reduced = 2" "\<forall>row \<in> set X_reduced. length row = n_features X_reduced"
    by blast
  have two: "2 \<le> length (remdups [''A'', ''B''])" by simp
  from shape(1) have len: "length X_reduced = length [''A'', ''B'']" by simp
  from training_needs_two_labels [OF load2, of checked_lib 2 4, THEN conjunct2, rule_format,
      of X X_reduced] run len shape(2) two
  have "\<exists>clf. load_and_train_model checked_lib 2 4
       [(''A_1.txt'', Inr ''abcdefghijkl''), (''B_1.txt'', Inr ''lkjihgfedcba'')] =
     Inr (clf, \<lparr>analyzer = ''char'', ngram_range = (2, 4)\<rparr>,
          \<lparr>n_components = 50, random_state = 42\<rparr>, [''abcdefghijkl'', ''lkjihgfedcba''],
          [''A'', ''B''], [''A_1'', ''B_1''], X_reduced)"
    by blast
  with one show ?thesis by blast
qed

end
